theory Spec2Isabelle
  imports Main "HOL-Library.Sublist" "HOL-Library.Char_ord" "HOL-Library.List_Lexorder"
    "HOL-Library.Multiset"
begin

section \<open>Strings\<close>

text \<open>
  A Python \<open>str\<close> is modelled as a \<open>string\<close>, a character being a code point
  below 256. The string methods the program calls (\<open>lower\<close>, \<open>endswith\<close>,
  \<open>strip\<close>, \<open>replace\<close>, slicing, \<open>str(int)\<close>) are written out; \<open>lower\<close> maps
  the ASCII capitals and leaves the other characters alone, and \<open>isspace\<close> lists the
  code points below 256 that \<open>str.strip()\<close> removes.
\<close>

definition lower_char :: "char \<Rightarrow> char" where
  "lower_char c =
     (if CHR ''A'' \<le> c \<and> c \<le> CHR ''Z'' then char_of (of_char c + (32::nat)) else c)"

definition lower :: "string \<Rightarrow> string" where
  "lower s = map lower_char s"

definition endswith :: "string \<Rightarrow> string \<Rightarrow> bool" where
  "endswith s suf = (length suf \<le> length s \<and> drop (length s - length suf) s = suf)"

text \<open>\<open>s[: -n]\<close>; Python reads \<open>s[: -0]\<close> as \<open>s[: 0]\<close>, the empty string.\<close>

definition slice_to_neg :: "string \<Rightarrow> nat \<Rightarrow> string" where
  "slice_to_neg s n = (if n = 0 then [] else take (length s - n) s)"

definition isspace :: "char \<Rightarrow> bool" where
  "isspace c = (c \<in> set [CHR 0x09, CHR 0x0A, CHR 0x0B, CHR 0x0C, CHR 0x0D,
                           CHR 0x1C, CHR 0x1D, CHR 0x1E, CHR 0x1F, CHR 0x20,
                           CHR 0x85, CHR 0xA0])"

definition strip :: "string \<Rightarrow> string" where
  "strip s = rev (dropWhile isspace (rev (dropWhile isspace s)))"

text \<open>
  \<open>s.replace(old, new)\<close>, left to right over non-overlapping occurrences. The third
  argument counts the characters of a matched occurrence still to be dropped.
\<close>

fun replace_from :: "string \<Rightarrow> string \<Rightarrow> nat \<Rightarrow> string \<Rightarrow> string" where
  "replace_from old new k [] = []"
| "replace_from old new (Suc k) (c # cs) = replace_from old new k cs"
| "replace_from old new 0 (c # cs) =
     (if prefix old (c # cs) then new @ replace_from old new (length old - 1) cs
      else c # replace_from old new 0 cs)"

definition replace :: "string \<Rightarrow> string \<Rightarrow> string \<Rightarrow> string" where
  "replace s old new =
     (if old = [] then new @ concat (map (\<lambda>c. c # new) s)
      else replace_from old new 0 s)"

definition digit_char :: "nat \<Rightarrow> char" where
  "digit_char d = char_of (48 + d)"

text \<open>\<open>str(n)\<close> for a non-negative integer: its decimal digits.\<close>

fun str :: "nat \<Rightarrow> string" where
  "str n = (if n < 10 then [digit_char n] else str (n div 10) @ [digit_char (n mod 10)])"

declare str.simps [simp del]

definition rfind :: "string \<Rightarrow> char \<Rightarrow> nat option" where
  "rfind s c =
     (let hits = filter (\<lambda>i. s ! i = c) [0..<length s]
      in if hits = [] then None else Some (last hits))"

section \<open>Paths\<close>

text \<open>
  A \<open>pathlib.Path\<close> is the list of its components below the root, as pathlib keeps
  them. \<open>joinpath\<close> is the operator \<open>/\<close> for a right operand that is one file name
  (the program only ever joins a name derived from \<open>Path.name\<close>); pathlib drops an
  empty operand and the component \<open>.\<close>.
\<close>

type_synonym path = "string list"

definition name :: "path \<Rightarrow> string" where
  "name p = (if p = [] then [] else last p)"

definition parent :: "path \<Rightarrow> path" where
  "parent p = butlast p"

definition joinpath :: "path \<Rightarrow> string \<Rightarrow> path" where
  "joinpath p s = (if s = [] \<or> s = ''.'' then p else p @ [s])"

text \<open>
  \<open>Path.stem\<close>: the name without its last suffix, where a suffix starts at the last
  dot unless that dot is the first or the last character of the name.
\<close>

definition stem :: "path \<Rightarrow> string" where
  "stem p =
     (case rfind (name p) (CHR ''.'') of
        None \<Rightarrow> name p
      | Some i \<Rightarrow> if 0 < i \<and> i < length (name p) - 1 then take i (name p) else name p)"

section \<open>The table of known extensions\<close>

text \<open>
  \<open>shutil.get_unpack_formats()\<close> is a parameter: the list of registered formats,
  each a triple of name, extensions and description. The set comprehension of the
  source lower-cases and deduplicates the extensions; the order in which Python
  iterates over a set is not specified, and the model takes first occurrences. The
  sort by decreasing length is stable, as \<open>sorted(..., key=len, reverse=True)\<close> is.
\<close>

type_synonym unpack_format = "string \<times> string list \<times> string"

definition SUPPORTED_EXTENSIONS :: "unpack_format list \<Rightarrow> string list" where
  "SUPPORTED_EXTENSIONS formats =
     sort_key (\<lambda>ext. - int (length ext))
       (remdups (concat (map (\<lambda>(_, exts, _). map lower exts) formats)))"

definition archive_stem :: "unpack_format list \<Rightarrow> path \<Rightarrow> string" where
  "archive_stem formats p =
     (let lower_name = lower (name p)
      in case find (\<lambda>ext. endswith lower_name ext) (SUPPORTED_EXTENSIONS formats) of
           Some ext \<Rightarrow> slice_to_neg (name p) (length ext)
         | None \<Rightarrow> stem p)"

section \<open>The file system\<close>

text \<open>
  The file system is an association list from paths to entries, read with \<open>map_of\<close>.
  An entry is a regular file with its contents, a directory, or a symbolic link to a
  directory (\<open>DirLink\<close>): \<open>Path.exists()\<close> and \<open>Path.is_dir()\<close> follow the link and
  hold of it, \<open>Path.is_file()\<close> does not. Other symbolic links, permissions and the
  special component \<open>..\<close> are outside the model.
\<close>

datatype node = File string | Dir | DirLink

type_synonym filesystem = "(path \<times> node) list"

definition exists :: "filesystem \<Rightarrow> path \<Rightarrow> bool" where
  "exists fs p = (map_of fs p \<noteq> None)"

definition is_dir :: "filesystem \<Rightarrow> path \<Rightarrow> bool" where
  "is_dir fs p = (map_of fs p = Some Dir \<or> map_of fs p = Some DirLink)"

definition is_file :: "filesystem \<Rightarrow> path \<Rightarrow> bool" where
  "is_file fs p = (case map_of fs p of Some (File _) \<Rightarrow> True | _ \<Rightarrow> False)"

section \<open>Discovery\<close>

record ExtractionPlan =
  input_dir :: path
  output_dir :: path
  recursive :: bool
  on_existing :: string
  dry_run :: bool
  pattern :: string

record ExtractionResult =
  extracted :: int
  skipped :: int
  failed :: int

text \<open>
  \<open>Path.glob\<close> and \<open>Path.rglob\<close> are one parameter \<open>glob\<close>: given whether the scan
  is recursive, the file system, the directory and the pattern, the paths the call
  yields, in the order it yields them. Paths compare as pathlib compares them: component
  by component, each component character by character.
\<close>

type_synonym globber = "bool \<Rightarrow> filesystem \<Rightarrow> path \<Rightarrow> string \<Rightarrow> path list"

definition collect_archives ::
  "unpack_format list \<Rightarrow> globber \<Rightarrow> ExtractionPlan \<Rightarrow> filesystem \<Rightarrow> path list" where
  "collect_archives formats glob plan fs =
     (let candidates = [p \<leftarrow> glob (recursive plan) fs (input_dir plan) (pattern plan). is_file fs p];
          archives = [p \<leftarrow> candidates.
                        list_ex (\<lambda>ext. endswith (lower (name p)) ext) (SUPPORTED_EXTENSIONS formats)]
      in sort archives)"

section \<open>Exceptions and file-system operations\<close>

text \<open>
  The exceptions the program can meet. \<open>shutil.ReadError\<close> and the file-system errors
  are subclasses of \<open>OSError\<close>. \<open>EOFError\<close> (from \<open>input()\<close> at the end of the
  input, and from the extractor on a truncated gzip stream), \<open>zipfile.BadZipFile\<close>
  (from the extractor on a zip archive with a bad checksum) and \<open>OtherException\<close>
  (anything else the extractor may raise) are subclasses of neither \<open>OSError\<close> nor
  \<open>ValueError\<close>.
\<close>

datatype exn =
  FileExistsError | FileNotFoundError | NotADirectoryError | IsADirectoryError
  | OSError | ReadError | ValueError | EOFError | BadZipFile | OtherException

definition is_OSError :: "exn \<Rightarrow> bool" where
  "is_OSError e = (e \<in> {FileExistsError, FileNotFoundError, NotADirectoryError,
                         IsADirectoryError, OSError, ReadError})"

text \<open>
  Operations that return nothing give \<open>None\<close> when they return and \<open>Some e\<close> when
  they raise \<open>e\<close>, next to the file system they leave behind.
\<close>

definition os_mkdir :: "filesystem \<Rightarrow> path \<Rightarrow> exn option \<times> filesystem" where
  "os_mkdir fs p =
     (if exists fs p then (Some FileExistsError, fs)
      else if \<not> exists fs (parent p) then (Some FileNotFoundError, fs)
      else if \<not> is_dir fs (parent p) then (Some NotADirectoryError, fs)
      else (None, (p, Dir) # fs))"

text \<open>\<open>Path.mkdir(parents=False, exist_ok=True)\<close>.\<close>

definition mkdir_exist_ok :: "filesystem \<Rightarrow> path \<Rightarrow> exn option \<times> filesystem" where
  "mkdir_exist_ok fs p =
     (case os_mkdir fs p of
        (None, fs') \<Rightarrow> (None, fs')
      | (Some e, fs') \<Rightarrow>
          if e = FileNotFoundError then (Some e, fs')
          else if is_dir fs' p then (None, fs') else (Some e, fs'))"

text \<open>\<open>Path.mkdir(parents=True, exist_ok=True)\<close>, as pathlib writes it.\<close>

function mkdir :: "filesystem \<Rightarrow> path \<Rightarrow> exn option \<times> filesystem" where
  "mkdir fs p =
     (case os_mkdir fs p of
        (None, fs') \<Rightarrow> (None, fs')
      | (Some e, fs') \<Rightarrow>
          if e = FileNotFoundError then
            (if parent p = p then (Some e, fs')
             else case mkdir fs' (parent p) of
                    (Some e', fs'') \<Rightarrow> (Some e', fs'')
                  | (None, fs'') \<Rightarrow> mkdir_exist_ok fs'' p)
          else if is_dir fs' p then (None, fs') else (Some e, fs'))"
  by pat_completeness auto
termination
proof (relation "measure (\<lambda>(fs, p). length p)")
  show "wf (measure (\<lambda>(fs, p). length p))"
    by simp
next
  fix fs fs' :: filesystem and p :: path
  assume "parent p \<noteq> p"
  then have "p \<noteq> []"
    by (auto simp: parent_def)
  then show "((fs', parent p), (fs, p)) \<in> measure (\<lambda>(fs, p). length p)"
    by (simp add: parent_def)
qed

declare mkdir.simps [simp del]

definition iterdir :: "filesystem \<Rightarrow> path \<Rightarrow> exn + path list" where
  "iterdir fs d =
     (if \<not> exists fs d then Inl FileNotFoundError
      else if \<not> is_dir fs d then Inl NotADirectoryError
      else Inr (remdups [p \<leftarrow> map fst fs. p \<noteq> [] \<and> parent p = d]))"

text \<open>\<open>Path.unlink()\<close> removes a file or a link, and refuses a directory.\<close>

definition unlink :: "filesystem \<Rightarrow> path \<Rightarrow> exn option \<times> filesystem" where
  "unlink fs p =
     (if \<not> exists fs p then (Some FileNotFoundError, fs)
      else if map_of fs p = Some Dir then (Some IsADirectoryError, fs)
      else (None, [(q, n) \<leftarrow> fs. q \<noteq> p]))"

text \<open>
  \<open>shutil.rmtree\<close> removes a directory with everything below it. It refuses a
  symbolic link with \<open>OSError\<close> (``Cannot call rmtree on a symbolic link''), also
  when the link points to a directory.
\<close>

definition rmtree :: "filesystem \<Rightarrow> path \<Rightarrow> exn option \<times> filesystem" where
  "rmtree fs p =
     (if \<not> exists fs p then (Some FileNotFoundError, fs)
      else if map_of fs p = Some DirLink then (Some OSError, fs)
      else if \<not> is_dir fs p then (Some NotADirectoryError, fs)
      else (None, [(q, n) \<leftarrow> fs. \<not> prefix p q]))"

section \<open>The destination resolver\<close>

text \<open>The loop of the \<open>overwrite\<close> branch over the children of the destination.\<close>

fun overwrite_loop :: "path list \<Rightarrow> filesystem \<Rightarrow> exn option \<times> filesystem" where
  "overwrite_loop [] fs = (None, fs)"
| "overwrite_loop (child # children) fs =
     (case (if is_dir fs child then rmtree fs child else unlink fs child) of
        (Some e, fs') \<Rightarrow> (Some e, fs')
      | (None, fs') \<Rightarrow> overwrite_loop children fs')"

definition candidate :: "path \<Rightarrow> nat \<Rightarrow> path" where
  "candidate dest counter = joinpath (parent dest) (name dest @ ''_'' @ str counter)"

lemma digit_char_inj: "a < 10 \<Longrightarrow> b < 10 \<Longrightarrow> digit_char a = digit_char b \<Longrightarrow> a = b"
  by (simp add: digit_char_def char_of_eq_iff take_bit_nat_eq_self)

lemma str_nonempty: "str n \<noteq> []"
  by (subst str.simps) simp

lemma str_inj: "str a = str b \<Longrightarrow> a = b"
proof (induction a arbitrary: b rule: str.induct)
  case (1 a)
  show ?case
  proof (cases "a < 10")
    case True
    then have sa: "str a = [digit_char a]" by (subst str.simps) simp
    show ?thesis
    proof (cases "b < 10")
      case True
      then have "str b = [digit_char b]" by (subst str.simps) simp
      with sa "1.prems" \<open>a < 10\<close> True show ?thesis by (simp add: digit_char_inj)
    next
      case False
      then have "str b = str (b div 10) @ [digit_char (b mod 10)]" by (subst str.simps) simp
      with sa "1.prems" str_nonempty [of "b div 10"] show ?thesis by simp
    qed
  next
    case False
    then have sa: "str a = str (a div 10) @ [digit_char (a mod 10)]" by (subst str.simps) simp
    show ?thesis
    proof (cases "b < 10")
      case True
      then have "str b = [digit_char b]" by (subst str.simps) simp
      with sa "1.prems" str_nonempty [of "a div 10"] show ?thesis by simp
    next
      case bf: False
      then have sb: "str b = str (b div 10) @ [digit_char (b mod 10)]" by (subst str.simps) simp
      from sa sb "1.prems" have e1: "str (a div 10) = str (b div 10)"
        and e2: "digit_char (a mod 10) = digit_char (b mod 10)" by simp_all
      from "1.IH" [OF False e1] have d: "a div 10 = b div 10" .
      from e2 have m: "a mod 10 = b mod 10" by (simp add: digit_char_inj)
      from d m show ?thesis by (metis div_mult_mod_eq)
    qed
  qed
qed

lemma candidate_append: "candidate dest k = parent dest @ [name dest @ ''_'' @ str k]"
proof -
  have "name dest @ ''_'' @ str k \<noteq> ''.''"
    using str_nonempty [of k] by (cases "name dest") (auto simp: Cons_eq_append_conv)
  then show ?thesis by (simp add: candidate_def joinpath_def)
qed

lemma candidate_inj: "inj (candidate dest)"
  by (rule injI) (simp add: candidate_append str_inj)

lemma exists_iff_key: "exists fs p \<longleftrightarrow> p \<in> fst ` set fs"
  by (simp add: exists_def map_of_eq_None_iff)

lemma finite_taken_candidates: "finite {k. exists fs (candidate dest k)}"
proof -
  have "{k. exists fs (candidate dest k)} \<subseteq> candidate dest -` (fst ` set fs)"
    by (auto simp: exists_iff_key)
  moreover have "finite (candidate dest -` (fst ` set fs))"
    by (rule finite_vimageI [OF _ candidate_inj]) simp
  ultimately show ?thesis by (rule finite_subset)
qed

text \<open>
  The \<open>while True\<close> loop of the \<open>rename\<close> branch. It ends because the candidates are
  pairwise different and the file system holds finitely many entries.
\<close>

function rename_loop :: "filesystem \<Rightarrow> path \<Rightarrow> nat \<Rightarrow> (exn + path option) \<times> filesystem" where
  "rename_loop fs dest counter =
     (if \<not> exists fs (candidate dest counter) then
        (case mkdir fs (candidate dest counter) of
           (Some e, fs') \<Rightarrow> (Inl e, fs')
         | (None, fs') \<Rightarrow> (Inr (Some (candidate dest counter)), fs'))
      else rename_loop fs dest (counter + 1))"
  by pat_completeness auto
termination
proof (relation "measure (\<lambda>(fs, dest, counter). card {k. counter \<le> k \<and> exists fs (candidate dest k)})")
  show "wf (measure (\<lambda>(fs, dest, counter). card {k. counter \<le> k \<and> exists fs (candidate dest k)}))"
    by simp
next
  fix fs :: filesystem and dest :: path and counter :: nat
  assume "\<not> \<not> exists fs (candidate dest counter)"
  then have taken: "exists fs (candidate dest counter)" by simp
  have fin: "finite {k. counter \<le> k \<and> exists fs (candidate dest k)}"
    by (rule finite_subset [OF _ finite_taken_candidates [of fs dest]]) auto
  have "counter \<in> {k. counter \<le> k \<and> exists fs (candidate dest k)}"
    and "counter \<notin> {k. counter + 1 \<le> k \<and> exists fs (candidate dest k)}"
    using taken by simp_all
  moreover have "{k. counter + 1 \<le> k \<and> exists fs (candidate dest k)}
          \<subseteq> {k. counter \<le> k \<and> exists fs (candidate dest k)}"
    by auto
  ultimately have "{k. counter + 1 \<le> k \<and> exists fs (candidate dest k)}
          \<subset> {k. counter \<le> k \<and> exists fs (candidate dest k)}"
    by blast
  then have "card {k. counter + 1 \<le> k \<and> exists fs (candidate dest k)}
               < card {k. counter \<le> k \<and> exists fs (candidate dest k)}"
    by (rule psubset_card_mono [OF fin])
  then show "((fs, dest, counter + 1), (fs, dest, counter))
               \<in> measure (\<lambda>(fs, dest, counter). card {k. counter \<le> k \<and> exists fs (candidate dest k)})"
    by simp
qed

declare rename_loop.simps [simp del]

definition ensure_destination ::
  "path \<Rightarrow> string \<Rightarrow> filesystem \<Rightarrow> (exn + path option) \<times> filesystem" where
  "ensure_destination dest policy fs =
     (if \<not> exists fs dest then
        (case mkdir fs dest of
           (Some e, fs') \<Rightarrow> (Inl e, fs')
         | (None, fs') \<Rightarrow> (Inr (Some dest), fs'))
      else if policy = ''skip'' then (Inr None, fs)
      else if policy = ''overwrite'' then
        (case iterdir fs dest of
           Inl e \<Rightarrow> (Inl e, fs)
         | Inr children \<Rightarrow>
             (case overwrite_loop children fs of
                (Some e, fs') \<Rightarrow> (Inl e, fs')
              | (None, fs') \<Rightarrow> (Inr (Some dest), fs')))
      else if policy = ''rename'' then rename_loop fs dest 1
      else (Inr None, fs))"

section \<open>The operator\<close>

text \<open>
  What the program can see and change: the file system and the lines the operator
  will still type. What the program prints is not modelled, so the prompt texts are
  left out of \<open>prompt\<close> and \<open>prompt_choice\<close>. \<open>input()\<close> raises \<open>EOFError\<close> when
  no line is left.
\<close>

record world =
  files :: filesystem
  stdin :: "string list"

definition input :: "world \<Rightarrow> (exn + string) \<times> world" where
  "input w =
     (case stdin w of
        [] \<Rightarrow> (Inl EOFError, w)
      | line # rest \<Rightarrow> (Inr line, w\<lparr>stdin := rest\<rparr>))"

definition prompt :: "string option \<Rightarrow> world \<Rightarrow> (exn + string) \<times> world" where
  "prompt dflt w =
     (case input w of
        (Inl e, w') \<Rightarrow> (Inl e, w')
      | (Inr line, w') \<Rightarrow>
          (case dflt of
             None \<Rightarrow> (Inr (strip line), w')
           | Some d \<Rightarrow>
               if d \<noteq> [] then (Inr (if strip line = [] then d else strip line), w')
               else (Inr (strip line), w')))"

lemma prompt_consumes:
  "prompt dflt w = (Inr v, w') \<Longrightarrow> length (stdin w') < length (stdin w)"
  by (auto simp: prompt_def input_def split: list.splits option.splits if_splits)

function prompt_choice :: "string list \<Rightarrow> string \<Rightarrow> world \<Rightarrow> (exn + string) \<times> world" where
  "prompt_choice choices dflt w =
     (case prompt (Some dflt) w of
        (Inl e, w') \<Rightarrow> (Inl e, w')
      | (Inr v, w') \<Rightarrow>
          if v \<in> set choices then (Inr v, w') else prompt_choice choices dflt w')"
  by pat_completeness auto
termination
  by (relation "measure (\<lambda>(choices, dflt, w). length (stdin w))")
     (auto dest: prompt_consumes [OF sym])

declare prompt_choice.simps [simp del]

definition handle_existing_dest ::
  "path \<Rightarrow> string \<Rightarrow> world \<Rightarrow> (exn + path option \<times> string) \<times> world" where
  "handle_existing_dest dest policy w =
     (if \<not> exists (files w) dest \<or> policy \<noteq> ''ask'' then
        (case ensure_destination dest policy (files w) of
           (Inl e, fs') \<Rightarrow> (Inl e, w\<lparr>files := fs'\<rparr>)
         | (Inr resolved_dest, fs') \<Rightarrow> (Inr (resolved_dest, policy), w\<lparr>files := fs'\<rparr>))
      else
        (case prompt_choice [''skip'', ''overwrite'', ''rename'',
                             ''skip-all'', ''overwrite-all'', ''rename-all''] ''skip'' w of
           (Inl e, w') \<Rightarrow> (Inl e, w')
         | (Inr choice, w') \<Rightarrow>
             if endswith choice ''-all'' then
               (let resolved = replace choice ''-all'' []
                in case ensure_destination dest resolved (files w') of
                     (Inl e, fs') \<Rightarrow> (Inl e, w'\<lparr>files := fs'\<rparr>)
                   | (Inr resolved_dest, fs') \<Rightarrow>
                       (Inr (resolved_dest, resolved), w'\<lparr>files := fs'\<rparr>))
             else
               (case ensure_destination dest choice (files w') of
                  (Inl e, fs') \<Rightarrow> (Inl e, w'\<lparr>files := fs'\<rparr>)
                | (Inr resolved_dest, fs') \<Rightarrow>
                    (Inr (resolved_dest, policy), w'\<lparr>files := fs'\<rparr>))))"

section \<open>The batch runner\<close>

text \<open>
  \<open>shutil.unpack_archive\<close> is a parameter: from the archive, the destination and the
  file system, the file system it leaves and the exception it raises, if any. The
  \<open>except\<close> clause of the loop catches \<open>shutil.ReadError\<close>, \<open>ValueError\<close> and
  \<open>OSError\<close>; any other exception leaves the loop and the program.
\<close>

type_synonym extractor = "path \<Rightarrow> path \<Rightarrow> filesystem \<Rightarrow> exn option \<times> filesystem"

definition caught :: "exn \<Rightarrow> bool" where
  "caught e = (e = ReadError \<or> e = ValueError \<or> is_OSError e)"

text \<open>
  The \<open>for\<close> loop of \<open>extract_archives\<close>. It carries the three counters and the
  current policy (the local variable \<open>on_existing\<close>), and returns them.
\<close>

fun extract_loop ::
  "unpack_format list \<Rightarrow> extractor \<Rightarrow> ExtractionPlan \<Rightarrow> path list \<Rightarrow>
   ExtractionResult \<times> string \<Rightarrow> world \<Rightarrow> (exn + ExtractionResult \<times> string) \<times> world" where
  "extract_loop formats unpack_archive plan [] st w = (Inr st, w)"
| "extract_loop formats unpack_archive plan (archive # rest) (counts, policy) w =
     (let dest = joinpath (output_dir plan) (archive_stem formats archive)
      in case handle_existing_dest dest policy w of
           (Inl e, w') \<Rightarrow> (Inl e, w')
         | (Inr (resolved_dest, policy'), w') \<Rightarrow>
             (case resolved_dest of
                None \<Rightarrow>
                  extract_loop formats unpack_archive plan rest
                    (counts\<lparr>skipped := skipped counts + 1\<rparr>, policy') w'
              | Some d \<Rightarrow>
                  if dry_run plan then
                    extract_loop formats unpack_archive plan rest
                      (counts\<lparr>extracted := extracted counts + 1\<rparr>, policy') w'
                  else
                    (case unpack_archive archive d (files w') of
                       (None, fs') \<Rightarrow>
                         extract_loop formats unpack_archive plan rest
                           (counts\<lparr>extracted := extracted counts + 1\<rparr>, policy')
                           (w'\<lparr>files := fs'\<rparr>)
                     | (Some e, fs') \<Rightarrow>
                         if caught e then
                           extract_loop formats unpack_archive plan rest
                             (counts\<lparr>failed := failed counts + 1\<rparr>, policy')
                             (w'\<lparr>files := fs'\<rparr>)
                         else (Inl e, w'\<lparr>files := fs'\<rparr>))))"

definition extract_archives ::
  "unpack_format list \<Rightarrow> extractor \<Rightarrow> ExtractionPlan \<Rightarrow> path list \<Rightarrow> world \<Rightarrow>
   (exn + ExtractionResult) \<times> world" where
  "extract_archives formats unpack_archive plan archives w =
     (case extract_loop formats unpack_archive plan archives
             (\<lparr>extracted = 0, skipped = 0, failed = 0\<rparr>, on_existing plan) w of
        (Inl e, w') \<Rightarrow> (Inl e, w')
      | (Inr (result, _), w') \<Rightarrow> (Inr result, w'))"

text \<open>
  \<open>main\<close> from the point where the plan is built: parsing the arguments and the
  interactive questions are not modelled. The result is the exit status.
\<close>

definition main ::
  "unpack_format list \<Rightarrow> globber \<Rightarrow> extractor \<Rightarrow> ExtractionPlan \<Rightarrow> world \<Rightarrow>
   (exn + int) \<times> world" where
  "main formats glob unpack_archive plan w =
     (if \<not> exists (files w) (input_dir plan) then (Inr 2, w)
      else
        (let archives = collect_archives formats glob plan (files w)
         in if archives = [] then (Inr 0, w)
            else
              (case mkdir (files w) (output_dir plan) of
                 (Some e, fs') \<Rightarrow> (Inl e, w\<lparr>files := fs'\<rparr>)
               | (None, fs') \<Rightarrow>
                   (case extract_archives formats unpack_archive plan archives
                           (w\<lparr>files := fs'\<rparr>) of
                      (Inl e, w') \<Rightarrow> (Inl e, w')
                    | (Inr result, w') \<Rightarrow> (Inr (if failed result = 0 then 0 else 1), w')))))"


section \<open>Predicates of the specification\<close>

text \<open>
  In a file system every entry lies in a directory (and the root is a directory).
\<close>

definition well_formed :: "filesystem \<Rightarrow> bool" where
  "well_formed fs = list_all (\<lambda>(p, n). is_dir fs (parent p)) fs"


section \<open>A worked example\<close>

text \<open>
  The formats Python registers, a source directory with three archives (the second one
  unreadable), a text file and a directory named like an archive, and an output
  directory where the folders \<open>A\<close> and \<open>b\<close> already exist. The example glob lists the
  entries of a directory; the example extractor writes one file into the destination
  and raises \<open>ReadError\<close> on the unreadable archive.
\<close>

definition example_formats :: "unpack_format list" where
  "example_formats =
     [(''bztar'', [''.tar.bz2'', ''.tbz2''], ''bzip2''), (''gztar'', [''.tar.gz'', ''.tgz''], ''gzip''),
      (''tar'', [''.tar''], ''tar''), (''xztar'', [''.tar.xz'', ''.txz''], ''xz''),
      (''zip'', [''.zip''], ''zip'')]"

definition example_glob :: globber where
  "example_glob rec fs d pat = [p \<leftarrow> map fst fs. p \<noteq> [] \<and> parent p = d]"

definition example_files :: filesystem where
  "example_files =
     [([], Dir), ([''in''], Dir), ([''in'', ''b.zip''], File ''bad''),
      ([''in'', ''A.TAR.GZ''], File ''gz''), ([''in'', ''c.tar''], File ''tar''),
      ([''in'', ''notes.txt''], File ''n''), ([''in'', ''dir.zip''], Dir),
      ([''out''], Dir), ([''out'', ''A''], Dir), ([''out'', ''A'', ''old''], File ''o''),
      ([''out'', ''b''], Dir)]"

definition example_plan :: ExtractionPlan where
  "example_plan =
     \<lparr>input_dir = [''in''], output_dir = [''out''], recursive = False,
      on_existing = ''ask'', dry_run = False, pattern = ''*''\<rparr>"

definition example_unpack :: extractor where
  "example_unpack archive d fs =
     (if is_file fs archive \<and> map_of fs archive \<noteq> Some (File ''bad'')
      then (None, (d @ [''data''], File ''x'') # fs)
      else (Some ReadError, fs))"



text \<open>
  An extractor that finds a bad checksum in the unreadable archive and raises
  \<open>zipfile.BadZipFile\<close>, as \<open>shutil.unpack_archive\<close> does on such a zip archive.
\<close>

definition corrupt_unpack :: extractor where
  "corrupt_unpack archive d fs =
     (if is_file fs archive \<and> map_of fs archive \<noteq> Some (File ''bad'')
      then (None, (d @ [''data''], File ''x'') # fs)
      else (Some BadZipFile, fs))"

text \<open>
  A file system where the folder \<open>out/A\<close> holds a symbolic link to a directory.
\<close>

definition linked_files :: filesystem where
  "linked_files =
     [([], Dir), ([''in''], Dir), ([''in'', ''A.TAR.GZ''], File ''gz''),
      ([''in'', ''c.tar''], File ''tar''), ([''out''], Dir), ([''out'', ''A''], Dir),
      ([''out'', ''A'', ''link''], DirLink)]"

definition example_archives :: "path list" where
  "example_archives = [[''in'', ''A.TAR.GZ''], [''in'', ''b.zip''], [''in'', ''c.tar'']]"

section \<open>Properties\<close>

subsection \<open>Stem derivation\<close>

lemma find_sorted_first:
  "sorted (map f xs) \<Longrightarrow> find P xs = Some x \<Longrightarrow> y \<in> set xs \<Longrightarrow> P y \<Longrightarrow> f x \<le> f y"
  by (induction xs) (auto split: if_splits)

lemma find_Some_holds: "find P xs = Some x \<Longrightarrow> x \<in> set xs \<and> P x"
  by (induction xs) (auto split: if_splits)

lemma find_None_all: "find P xs = None \<longleftrightarrow> (\<forall>x\<in>set xs. \<not> P x)"
  by (induction xs) auto

lemma sorted_SUPPORTED_EXTENSIONS:
  "sorted (map (\<lambda>ext. - int (length ext)) (SUPPORTED_EXTENSIONS formats))"
  by (simp add: SUPPORTED_EXTENSIONS_def)

lemma archive_stem_longest:
  assumes known: "ext \<in> set (SUPPORTED_EXTENSIONS formats)"
    and ends: "endswith (lower (name p)) ext"
    and longest: "\<forall>e\<in>set (SUPPORTED_EXTENSIONS formats).
                    endswith (lower (name p)) e \<longrightarrow> length e \<le> length ext"
  shows "archive_stem formats p = slice_to_neg (name p) (length ext)"
proof -
  let ?P = "\<lambda>e. endswith (lower (name p)) e"
  let ?xs = "SUPPORTED_EXTENSIONS formats"
  from known ends have "find ?P ?xs \<noteq> None"
    by (auto simp: find_None_all)
  then obtain x where x: "find ?P ?xs = Some x"
    by auto
  then have xin: "x \<in> set ?xs" and xP: "?P x"
    using find_Some_holds by fastforce+
  from find_sorted_first [OF sorted_SUPPORTED_EXTENSIONS x known ends]
  have "length ext \<le> length x" by simp
  moreover from longest xin xP have "length x \<le> length ext" by blast
  ultimately have "length x = length ext" by simp
  with x show ?thesis by (simp add: archive_stem_def)
qed

lemma lower_data_tar_gz: "lower ''data.tar.gz'' = ''data.tar.gz''"
  by code_simp

lemma dotted_suffix_of_data_tar_gz:
  assumes "endswith ''data.tar.gz'' e" and "hd e = CHR ''.''"
  shows "length e \<le> 7"
proof (rule ccontr)
  assume big: "\<not> length e \<le> 7"
  define k where "k = length ''data.tar.gz'' - length e"
  from assms(1) have eq: "e = drop k ''data.tar.gz''"
    by (simp add: endswith_def k_def)
  from big have "k \<le> 3" by (simp add: k_def)
  then have "k = 0 \<or> k = 1 \<or> k = 2 \<or> k = 3" by arith
  then show False using eq assms(2) by (elim disjE) simp_all
qed

text \<open>
  C2. The stem of an archive is its file name without the longest known extension that
  the lower-cased name ends with. In particular, when \<open>.gz\<close> and \<open>.tar.gz\<close> are both
  known (and the known extensions start with a dot, as those of the unpack formats
  do), the stem of \<open>data.tar.gz\<close> is \<open>data\<close>, not \<open>data.tar\<close>.
\<close>

theorem archive_stem_longest_suffix:
  "(ext \<in> set (SUPPORTED_EXTENSIONS formats) \<and> endswith (lower (name p)) ext \<and>
      (\<forall>e\<in>set (SUPPORTED_EXTENSIONS formats).
          endswith (lower (name p)) e \<longrightarrow> length e \<le> length ext)
    \<longrightarrow> archive_stem formats p = slice_to_neg (name p) (length ext)) \<and>
   (name p = ''data.tar.gz'' \<and> ''.gz'' \<in> set (SUPPORTED_EXTENSIONS formats) \<and>
      ''.tar.gz'' \<in> set (SUPPORTED_EXTENSIONS formats) \<and>
      (\<forall>e\<in>set (SUPPORTED_EXTENSIONS formats). hd e = CHR ''.'')
    \<longrightarrow> archive_stem formats p = ''data'' \<and> archive_stem formats p \<noteq> ''data.tar'')"
proof (intro conjI impI)
  assume "ext \<in> set (SUPPORTED_EXTENSIONS formats) \<and> endswith (lower (name p)) ext \<and>
      (\<forall>e\<in>set (SUPPORTED_EXTENSIONS formats).
          endswith (lower (name p)) e \<longrightarrow> length e \<le> length ext)"
  then show "archive_stem formats p = slice_to_neg (name p) (length ext)"
    using archive_stem_longest by blast
next
  assume h: "name p = ''data.tar.gz'' \<and> ''.gz'' \<in> set (SUPPORTED_EXTENSIONS formats) \<and>
      ''.tar.gz'' \<in> set (SUPPORTED_EXTENSIONS formats) \<and>
      (\<forall>e\<in>set (SUPPORTED_EXTENSIONS formats). hd e = CHR ''.'')"
  have ends: "endswith (lower (name p)) ''.tar.gz''"
    using h by (simp add: lower_data_tar_gz endswith_def)
  have len: "length ''.tar.gz'' = 7"
    by simp
  have "\<forall>e\<in>set (SUPPORTED_EXTENSIONS formats).
          endswith (lower (name p)) e \<longrightarrow> length e \<le> length ''.tar.gz''"
    unfolding len using h dotted_suffix_of_data_tar_gz
    by (auto simp: lower_data_tar_gz)
  with h ends have "archive_stem formats p = slice_to_neg (name p) (length ''.tar.gz'')"
    using archive_stem_longest by blast
  with h have stem: "archive_stem formats p = ''data''"
    by (simp add: slice_to_neg_def)
  then show "archive_stem formats p = ''data''" .
  from stem show "archive_stem formats p \<noteq> ''data.tar''" by simp
qed

theorem archive_stem_longest_suffix_witness:
  "archive_stem [(''gztar'', [''.tar.gz'', ''.tgz''], ''gzip''), (''gz'', [''.GZ''], ''raw''),
                 (''zip'', [''.zip''], ''ZIP'')] [''downloads'', ''data.tar.gz''] = ''data''"
proof -
  let ?formats = "[(''gztar'', [''.tar.gz'', ''.tgz''], ''gzip''), (''gz'', [''.GZ''], ''raw''),
                   (''zip'', [''.zip''], ''ZIP'')]"
  have S: "SUPPORTED_EXTENSIONS ?formats = [''.tar.gz'', ''.tgz'', ''.zip'', ''.gz'']"
    by code_simp
  have n: "name [''downloads'', ''data.tar.gz''] = ''data.tar.gz''"
    by (simp add: name_def)
  from archive_stem_longest_suffix [of "''.tar.gz''" ?formats "[''downloads'', ''data.tar.gz'']"]
  show ?thesis by (simp add: S n)
qed

subsection \<open>Discovery\<close>

text \<open>
  C3. Discovery returns exactly the paths that the glob yields, that are regular files
  and whose lower-cased name ends with a known extension, each as often as the glob
  yields it, in increasing order of paths. Entries that are not regular files are
  left out, and when nothing matches the result is the empty list.
\<close>

theorem collect_archives_exact:
  "mset (collect_archives formats glob plan fs) =
     mset [p \<leftarrow> glob (recursive plan) fs (input_dir plan) (pattern plan).
             is_file fs p \<and> (\<exists>ext\<in>set (SUPPORTED_EXTENSIONS formats). endswith (lower (name p)) ext)] \<and>
   set (collect_archives formats glob plan fs) =
     {p \<in> set (glob (recursive plan) fs (input_dir plan) (pattern plan)).
        is_file fs p \<and> (\<exists>ext\<in>set (SUPPORTED_EXTENSIONS formats). endswith (lower (name p)) ext)} \<and>
   sorted (collect_archives formats glob plan fs) \<and>
   (\<forall>p\<in>set (collect_archives formats glob plan fs). is_file fs p \<and> \<not> is_dir fs p) \<and>
   ((\<forall>p\<in>set (glob (recursive plan) fs (input_dir plan) (pattern plan)).
        \<not> (is_file fs p \<and> (\<exists>ext\<in>set (SUPPORTED_EXTENSIONS formats). endswith (lower (name p)) ext)))
      \<longrightarrow> collect_archives formats glob plan fs = [])"
proof (intro conjI)
  show "mset (collect_archives formats glob plan fs) =
     mset [p \<leftarrow> glob (recursive plan) fs (input_dir plan) (pattern plan).
             is_file fs p \<and> (\<exists>ext\<in>set (SUPPORTED_EXTENSIONS formats). endswith (lower (name p)) ext)]"
    by (simp add: collect_archives_def list_ex_iff conj_commute)
  show "set (collect_archives formats glob plan fs) =
     {p \<in> set (glob (recursive plan) fs (input_dir plan) (pattern plan)).
        is_file fs p \<and> (\<exists>ext\<in>set (SUPPORTED_EXTENSIONS formats). endswith (lower (name p)) ext)}"
    by (auto simp: collect_archives_def list_ex_iff)
  show "sorted (collect_archives formats glob plan fs)"
    by (simp add: collect_archives_def)
  show "\<forall>p\<in>set (collect_archives formats glob plan fs). is_file fs p \<and> \<not> is_dir fs p"
    by (auto simp: collect_archives_def is_file_def is_dir_def)
  show "(\<forall>p\<in>set (glob (recursive plan) fs (input_dir plan) (pattern plan)).
        \<not> (is_file fs p \<and> (\<exists>ext\<in>set (SUPPORTED_EXTENSIONS formats). endswith (lower (name p)) ext)))
      \<longrightarrow> collect_archives formats glob plan fs = []"
    by (auto simp: collect_archives_def list_ex_iff filter_empty_conv)
qed

text \<open>
  C10. A path that discovery returns has a lower-cased name ending with a known
  extension, so \<open>archive_stem\<close> finds an extension for it and returns the name without
  that extension: the branch that falls back to \<open>Path.stem\<close> is not taken.
\<close>

theorem collect_archives_stem_no_fallback:
  assumes "p \<in> set (collect_archives formats glob plan fs)"
  shows "\<exists>ext. find (\<lambda>ext. endswith (lower (name p)) ext) (SUPPORTED_EXTENSIONS formats) = Some ext \<and>
           ext \<in> set (SUPPORTED_EXTENSIONS formats) \<and> endswith (lower (name p)) ext \<and>
           archive_stem formats p = slice_to_neg (name p) (length ext)"
proof -
  from assms have "\<exists>ext\<in>set (SUPPORTED_EXTENSIONS formats). endswith (lower (name p)) ext"
    by (auto simp: collect_archives_def list_ex_iff)
  then have "find (\<lambda>ext. endswith (lower (name p)) ext) (SUPPORTED_EXTENSIONS formats) \<noteq> None"
    by (simp add: find_None_all)
  then obtain ext where
    f: "find (\<lambda>ext. endswith (lower (name p)) ext) (SUPPORTED_EXTENSIONS formats) = Some ext"
    by auto
  with find_Some_holds [OF f] show ?thesis
    by (simp add: archive_stem_def)
qed

lemma example_collect:
  "collect_archives example_formats example_glob example_plan example_files =
     [[''in'', ''A.TAR.GZ''], [''in'', ''b.zip''], [''in'', ''c.tar'']]"
  by code_simp

lemma example_collect_nothing:
  "collect_archives example_formats example_glob (example_plan\<lparr>input_dir := [''out'']\<rparr>)
     example_files = []"
  by code_simp

theorem collect_archives_exact_witness:
  "sorted (collect_archives example_formats example_glob example_plan example_files) \<and>
   collect_archives example_formats example_glob example_plan example_files =
     [[''in'', ''A.TAR.GZ''], [''in'', ''b.zip''], [''in'', ''c.tar'']] \<and>
   collect_archives example_formats example_glob (example_plan\<lparr>input_dir := [''out'']\<rparr>)
     example_files = []"
  using collect_archives_exact [of example_formats example_glob example_plan example_files]
    collect_archives_exact [of example_formats example_glob
      "example_plan\<lparr>input_dir := [''out'']\<rparr>" example_files]
  by (simp add: example_collect example_collect_nothing)

theorem collect_archives_stem_no_fallback_witness:
  "\<exists>ext. find (\<lambda>ext. endswith (lower (name [''in'', ''A.TAR.GZ''])) ext)
            (SUPPORTED_EXTENSIONS example_formats) = Some ext \<and>
         ext \<in> set (SUPPORTED_EXTENSIONS example_formats) \<and>
         endswith (lower (name [''in'', ''A.TAR.GZ''])) ext \<and>
         archive_stem example_formats [''in'', ''A.TAR.GZ''] =
           slice_to_neg (name [''in'', ''A.TAR.GZ'']) (length ext)"
  using collect_archives_stem_no_fallback
    [of "[''in'', ''A.TAR.GZ'']" example_formats example_glob example_plan example_files]
  by (simp add: example_collect)


subsection \<open>The destination resolver\<close>

lemma well_formed_parent: "well_formed fs \<Longrightarrow> exists fs p \<Longrightarrow> is_dir fs (parent p)"
  by (auto simp: well_formed_def list_all_iff exists_iff_key)






lemma map_of_filter_key:
  "map_of [(q, n) \<leftarrow> fs. P q] p = (if P p then map_of fs p else None)"
  by (induction fs) auto

lemma is_dir_exists: "is_dir fs p \<Longrightarrow> exists fs p"
  by (auto simp: is_dir_def exists_def)

lemma unlink_file:
  "exists fs c \<Longrightarrow> map_of fs c \<noteq> Some Dir \<Longrightarrow>
   \<exists>fs'. unlink fs c = (None, fs') \<and> (\<forall>p. map_of fs' p = (if p = c then None else map_of fs p))"
  by (simp add: unlink_def map_of_filter_key)

lemma rmtree_dir:
  "map_of fs c = Some Dir \<Longrightarrow>
   \<exists>fs'. rmtree fs c = (None, fs') \<and> (\<forall>p. map_of fs' p = (if prefix c p then None else map_of fs p))"
  by (simp add: rmtree_def map_of_filter_key exists_def is_dir_def)

lemma remove_child:
  assumes "exists fs c" and "map_of fs c \<noteq> Some DirLink"
  shows "\<exists>fs'. (if is_dir fs c then rmtree fs c else unlink fs c) = (None, fs') \<and>
           (\<forall>p. map_of fs' p = (if prefix c p \<and> (p = c \<or> is_dir fs c) then None else map_of fs p))"
proof (cases "is_dir fs c")
  case True
  with assms(2) have "map_of fs c = Some Dir"
    by (simp add: is_dir_def)
  from rmtree_dir [OF this] True show ?thesis by auto
next
  case False
  then have "map_of fs c \<noteq> Some Dir"
    by (simp add: is_dir_def)
  from unlink_file [OF assms(1) this] False show ?thesis by auto
qed

lemma overwrite_loop_removes:
  assumes "distinct cs" and "\<forall>c\<in>set cs. exists fs c" and "\<forall>c\<in>set cs. length c = n"
    and "\<forall>c\<in>set cs. map_of fs c \<noteq> Some DirLink"
  shows "\<exists>fs'. overwrite_loop cs fs = (None, fs') \<and>
           (\<forall>p. map_of fs' p =
                  (if \<exists>c\<in>set cs. prefix c p \<and> (p = c \<or> is_dir fs c) then None else map_of fs p))"
  using assms
proof (induction cs arbitrary: fs)
  case Nil
  then show ?case by simp
next
  case (Cons c cs)
  from Cons.prems have exc: "exists fs c" and nlc: "map_of fs c \<noteq> Some DirLink"
    by simp_all
  from remove_child [OF exc nlc] obtain fs1 where
    step: "(if is_dir fs c then rmtree fs c else unlink fs c) = (None, fs1)"
    and m1: "\<And>p. map_of fs1 p = (if prefix c p \<and> (p = c \<or> is_dir fs c) then None else map_of fs p)"
    by blast
  have keep: "map_of fs1 c' = map_of fs c'" if "c' \<in> set cs" for c'
  proof -
    from that Cons.prems have "c' \<noteq> c" and "length c' = length c" by auto
    then have "\<not> prefix c c'"
      by (metis prefix_length_less strict_prefix_def less_irrefl)
    then show ?thesis by (simp add: m1)
  qed
  have "distinct cs" and "\<forall>c'\<in>set cs. exists fs1 c'" and "\<forall>c'\<in>set cs. length c' = n"
    and "\<forall>c'\<in>set cs. map_of fs1 c' \<noteq> Some DirLink"
    using Cons.prems keep by (auto simp: exists_def)
  from Cons.IH [OF this] obtain fs' where
    rest: "overwrite_loop cs fs1 = (None, fs')"
    and m': "\<And>p. map_of fs' p =
                  (if \<exists>c'\<in>set cs. prefix c' p \<and> (p = c' \<or> is_dir fs1 c') then None else map_of fs1 p)"
    by blast
  have dir_keep: "is_dir fs1 c' = is_dir fs c'" if "c' \<in> set cs" for c'
    using keep [OF that] by (simp add: is_dir_def)
  have "overwrite_loop (c # cs) fs = (None, fs')"
    using step rest by simp
  moreover have "map_of fs' p =
      (if \<exists>c'\<in>set (c # cs). prefix c' p \<and> (p = c' \<or> is_dir fs c') then None else map_of fs p)" for p
    using m' [of p] m1 [of p] dir_keep by auto
  ultimately show ?case by blast
qed

lemma well_formed_ancestor:
  "well_formed fs \<Longrightarrow> exists fs (q @ r) \<Longrightarrow> r \<noteq> [] \<Longrightarrow> is_dir fs q"
proof (induction r rule: rev_induct)
  case Nil
  then show ?case by simp
next
  case (snoc x r)
  from well_formed_parent [OF snoc.prems(1,2)] have d: "is_dir fs (q @ r)"
    by (simp add: parent_def butlast_append)
  show ?case
  proof (cases "r = []")
    case True
    with d show ?thesis by simp
  next
    case False
    from d have "exists fs (q @ r)" by (rule is_dir_exists)
    with snoc.IH snoc.prems(1) False show ?thesis by blast
  qed
qed

lemma child_iff: "p \<noteq> [] \<and> parent p = d \<longleftrightarrow> (\<exists>x. p = d @ [x])"
  by (auto simp: parent_def) (metis append_butlast_last_id)

text \<open>
  Where no entry is a symbolic link, the \<open>overwrite\<close> branch does empty an existing
  directory: it returns the same path, the directory has no children and nothing
  exists below it afterwards, and every path that is not below it is as before.
\<close>

lemma overwrite_without_links:
  assumes wf: "well_formed fs" and dir: "is_dir fs dest"
    and nl: "\<forall>p. map_of fs p \<noteq> Some DirLink"
  shows "\<exists>fs'. ensure_destination dest ''overwrite'' fs = (Inr (Some dest), fs') \<and>
           is_dir fs' dest \<and> iterdir fs' dest = Inr [] \<and>
           (\<forall>p. strict_prefix dest p \<longrightarrow> \<not> exists fs' p) \<and>
           (\<forall>p. \<not> strict_prefix dest p \<longrightarrow> map_of fs' p = map_of fs p)"
proof -
  define cs where "cs = remdups [p \<leftarrow> map fst fs. p \<noteq> [] \<and> parent p = dest]"
  have exd: "exists fs dest"
    using dir by (rule is_dir_exists)
  have it: "iterdir fs dest = Inr cs"
    using dir exd by (simp add: iterdir_def cs_def)
  have cs_iff: "c \<in> set cs \<longleftrightarrow> exists fs c \<and> (\<exists>x. c = dest @ [x])" for c
    using child_iff [of c dest] by (auto simp: cs_def exists_iff_key)
  have "distinct cs" and "\<forall>c\<in>set cs. exists fs c" and "\<forall>c\<in>set cs. length c = Suc (length dest)"
    and "\<forall>c\<in>set cs. map_of fs c \<noteq> Some DirLink"
    using nl by (auto simp: cs_iff) (simp add: cs_def)
  from overwrite_loop_removes [OF this] obtain fs' where
    loop: "overwrite_loop cs fs = (None, fs')"
    and m: "\<And>p. map_of fs' p =
              (if \<exists>c\<in>set cs. prefix c p \<and> (p = c \<or> is_dir fs c) then None else map_of fs p)"
    by blast
  have res: "ensure_destination dest ''overwrite'' fs = (Inr (Some dest), fs')"
    using exd it loop by (simp add: ensure_destination_def)
  have below: "strict_prefix dest p" if "c \<in> set cs" and "prefix c p" for c p
    using that by (auto simp: cs_iff prefix_def strict_prefix_def)
  have frame: "map_of fs' p = map_of fs p" if "\<not> strict_prefix dest p" for p
    using that below by (auto simp: m)
  have dir': "is_dir fs' dest"
    using dir frame [of dest] by (simp add: is_dir_def)
  have gone: "\<not> exists fs' p" if sp: "strict_prefix dest p" for p
  proof
    assume ex': "exists fs' p"
    then have ex: "exists fs p" and keep: "\<not> (\<exists>c\<in>set cs. prefix c p \<and> (p = c \<or> is_dir fs c))"
      by (auto simp: exists_def m split: if_splits)
    from sp obtain x r where p: "p = dest @ x # r"
      by (rule strict_prefixE')
    have c_dir_or_p: "r = [] \<or> is_dir fs (dest @ [x])"
      using well_formed_ancestor [OF wf, of "dest @ [x]" r] ex p by auto
    then have "exists fs (dest @ [x])"
      using ex p is_dir_exists by auto
    then have "dest @ [x] \<in> set cs" by (simp add: cs_iff)
    moreover have "prefix (dest @ [x]) p" by (simp add: p prefix_def)
    moreover have "p = dest @ [x] \<or> is_dir fs (dest @ [x])"
      using c_dir_or_p p by auto
    ultimately show False using keep by blast
  qed
  have empty: "iterdir fs' dest = Inr []"
  proof -
    have "[p \<leftarrow> map fst fs'. p \<noteq> [] \<and> parent p = dest] = []"
    proof (rule ccontr)
      assume "[p \<leftarrow> map fst fs'. p \<noteq> [] \<and> parent p = dest] \<noteq> []"
      then obtain p where "p \<in> fst ` set fs'" and "p \<noteq> [] \<and> parent p = dest"
        by (auto simp: filter_empty_conv)
      then have "exists fs' p" and "\<exists>x. p = dest @ [x]"
        using child_iff [of p dest] by (auto simp: exists_iff_key)
      then have "exists fs' p" and "strict_prefix dest p"
        by (auto simp: strict_prefix_def prefix_def)
      with gone show False by blast
    qed
    with dir' is_dir_exists [OF dir'] show ?thesis
      by (simp add: iterdir_def)
  qed
  from res dir' empty gone frame show ?thesis by blast
qed

text \<open>
  C5. The claim fails on the code. A child of the destination that is a symbolic link
  to a directory passes \<open>child.is_dir()\<close>, so the loop calls \<open>shutil.rmtree\<close> on
  it, which refuses a symbolic link: \<open>ensure_destination\<close> raises \<open>OSError\<close> and the
  directory keeps its contents. The call is outside the \<open>try\<close> of the batch loop, so
  the batch ends there too. (A second input: an archive named \<open>...zip\<close> has the stem
  \<open>..\<close>, so its destination is the output directory's \<open>..\<close>.)
\<close>

theorem overwrite_symlink_child_raises:
  "iterdir linked_files [''out'', ''A''] = Inr [[''out'', ''A'', ''link'']] \<and>
   is_dir linked_files [''out'', ''A'', ''link''] \<and>
   ensure_destination [''out'', ''A''] ''overwrite'' linked_files =
     (Inl OSError, linked_files) \<and>
   extract_archives example_formats example_unpack (example_plan\<lparr>on_existing := ''overwrite''\<rparr>)
     [[''in'', ''A.TAR.GZ''], [''in'', ''c.tar'']] \<lparr>files = linked_files, stdin = []\<rparr> =
     (Inl OSError, \<lparr>files = linked_files, stdin = []\<rparr>) \<and>
   archive_stem example_formats [''in'', ''...zip''] = ''..'' \<and>
   joinpath (output_dir example_plan) (archive_stem example_formats [''in'', ''...zip'']) =
     [''out'', ''..'']"
  by code_simp

subsection \<open>The batch runner\<close>







text \<open>
  One pass of the loop outside a dry run, once the destination is resolved: an
  exception that the \<open>except\<close> clause names adds one to \<open>failed\<close> and the loop goes
  on; any other exception leaves the loop with the counters lost.
\<close>

lemma caught_error_counts_failed:
  assumes "\<not> dry_run plan"
    and "handle_existing_dest (joinpath (output_dir plan) (archive_stem formats archive)) policy w =
           (Inr (Some d, policy'), w')"
    and "unpack_archive archive d (files w') = (Some e, fs')" and "caught e"
  shows "extract_loop formats unpack_archive plan [archive] (counts, policy) w =
           (Inr (counts\<lparr>failed := failed counts + 1\<rparr>, policy'), w'\<lparr>files := fs'\<rparr>)"
  using assms by simp

lemma uncaught_error_leaves_loop:
  assumes "\<not> dry_run plan"
    and "handle_existing_dest (joinpath (output_dir plan) (archive_stem formats archive)) policy w =
           (Inr (Some d, policy'), w')"
    and "unpack_archive archive d (files w') = (Some e, fs')" and "\<not> caught e"
  shows "extract_loop formats unpack_archive plan (archive # rest) (counts, policy) w =
           (Inl e, w'\<lparr>files := fs'\<rparr>)"
  using assms by simp

text \<open>
  C7. The claim fails on the code. The loop catches \<open>shutil.ReadError\<close>,
  \<open>ValueError\<close> and \<open>OSError\<close> only. On a zip archive with a bad checksum the
  extractor raises \<open>zipfile.BadZipFile\<close> (on a truncated gzip stream \<open>EOFError\<close>),
  which is none of them: the exception leaves the loop at the second archive,
  \<open>failed\<close> is not increased and the third archive is never processed. With
  \<open>ReadError\<close> at the same archive the batch goes on and returns the counters
  2, 0 and 1.
\<close>

theorem uncaught_extraction_error_aborts:
  "\<not> caught BadZipFile \<and> \<not> caught EOFError \<and>
   extract_archives example_formats corrupt_unpack (example_plan\<lparr>on_existing := ''overwrite''\<rparr>)
     example_archives \<lparr>files = example_files, stdin = []\<rparr> =
     (Inl BadZipFile,
      \<lparr>files =
         [([''out'', ''A'', ''data''], File ''x''), ([], Dir), ([''in''], Dir),
          ([''in'', ''b.zip''], File ''bad''), ([''in'', ''A.TAR.GZ''], File ''gz''),
          ([''in'', ''c.tar''], File ''tar''), ([''in'', ''notes.txt''], File ''n''),
          ([''in'', ''dir.zip''], Dir), ([''out''], Dir), ([''out'', ''A''], Dir),
          ([''out'', ''b''], Dir)],
       stdin = []\<rparr>) \<and>
   extract_archives example_formats example_unpack (example_plan\<lparr>on_existing := ''overwrite''\<rparr>)
     example_archives \<lparr>files = example_files, stdin = []\<rparr> =
     (Inr \<lparr>extracted = 2, skipped = 0, failed = 1\<rparr>,
      \<lparr>files =
         [([''out'', ''c'', ''data''], File ''x''), ([''out'', ''c''], Dir),
          ([''out'', ''A'', ''data''], File ''x''), ([], Dir), ([''in''], Dir),
          ([''in'', ''b.zip''], File ''bad''), ([''in'', ''A.TAR.GZ''], File ''gz''),
          ([''in'', ''c.tar''], File ''tar''), ([''in'', ''notes.txt''], File ''n''),
          ([''in'', ''dir.zip''], Dir), ([''out''], Dir), ([''out'', ''A''], Dir),
          ([''out'', ''b''], Dir)],
       stdin = []\<rparr>)"
  by code_simp

subsection \<open>The exit status\<close>

text \<open>
  C8. \<open>main\<close> returns 2, with nothing touched, when the source directory does not
  exist; 0, with nothing touched, when discovery finds no archive; and otherwise, once
  the batch has returned its counters, 1 when \<open>failed\<close> is not zero and 0 when it is.
\<close>

theorem main_exit_status:
  "(\<not> exists (files w) (input_dir plan) \<longrightarrow>
      main formats glob unpack_archive plan w = (Inr 2, w)) \<and>
   (exists (files w) (input_dir plan) \<and> collect_archives formats glob plan (files w) = [] \<longrightarrow>
      main formats glob unpack_archive plan w = (Inr 0, w)) \<and>
   (exists (files w) (input_dir plan) \<and> collect_archives formats glob plan (files w) \<noteq> [] \<and>
    mkdir (files w) (output_dir plan) = (None, fs') \<and>
    extract_archives formats unpack_archive plan (collect_archives formats glob plan (files w))
      (w\<lparr>files := fs'\<rparr>) = (Inr result, w') \<longrightarrow>
      main formats glob unpack_archive plan w = (Inr (if failed result \<noteq> 0 then 1 else 0), w'))"
  by (simp add: main_def Let_def)

lemma example_input_missing:
  "\<not> exists (files \<lparr>files = example_files, stdin = []\<rparr>)
       (input_dir (example_plan\<lparr>input_dir := [''nowhere'']\<rparr>))"
  by code_simp

lemma example_input_exists_out:
  "exists (files \<lparr>files = example_files, stdin = []\<rparr>)
       (input_dir (example_plan\<lparr>input_dir := [''out'']\<rparr>)) \<and>
   collect_archives example_formats example_glob (example_plan\<lparr>input_dir := [''out'']\<rparr>)
     (files \<lparr>files = example_files, stdin = []\<rparr>) = []"
  by code_simp

lemma example_input_exists:
  "exists (files \<lparr>files = example_files, stdin = answers\<rparr>) (input_dir example_plan)"
  by (simp add: example_plan_def example_files_def exists_def)

lemma example_mkdir_out:
  "mkdir (files \<lparr>files = example_files, stdin = answers\<rparr>) (output_dir example_plan) =
     (None, example_files)"
  by simp code_simp

lemma example_run_overwrite_all:
  "fst (extract_archives example_formats example_unpack example_plan example_archives
     \<lparr>files = example_files, stdin = [''overwrite-all'']\<rparr>) =
   Inr \<lparr>extracted = 2, skipped = 0, failed = 1\<rparr>"
  by code_simp

lemma example_run_skip_all:
  "fst (extract_archives example_formats example_unpack example_plan example_archives
     \<lparr>files = example_files, stdin = [''skip-all'']\<rparr>) =
   Inr \<lparr>extracted = 1, skipped = 2, failed = 0\<rparr>"
  by code_simp

theorem main_exit_status_witness:
  "main example_formats example_glob example_unpack (example_plan\<lparr>input_dir := [''nowhere'']\<rparr>)
     \<lparr>files = example_files, stdin = []\<rparr> = (Inr 2, \<lparr>files = example_files, stdin = []\<rparr>) \<and>
   main example_formats example_glob example_unpack (example_plan\<lparr>input_dir := [''out'']\<rparr>)
     \<lparr>files = example_files, stdin = []\<rparr> = (Inr 0, \<lparr>files = example_files, stdin = []\<rparr>) \<and>
   fst (main example_formats example_glob example_unpack example_plan
     \<lparr>files = example_files, stdin = [''overwrite-all'']\<rparr>) = Inr 1 \<and>
   fst (main example_formats example_glob example_unpack example_plan
     \<lparr>files = example_files, stdin = [''skip-all'']\<rparr>) = Inr 0"
proof (intro conjI)
  show "main example_formats example_glob example_unpack (example_plan\<lparr>input_dir := [''nowhere'']\<rparr>)
     \<lparr>files = example_files, stdin = []\<rparr> = (Inr 2, \<lparr>files = example_files, stdin = []\<rparr>)"
    using main_exit_status [THEN conjunct1, rule_format, OF example_input_missing] .
  show "main example_formats example_glob example_unpack (example_plan\<lparr>input_dir := [''out'']\<rparr>)
     \<lparr>files = example_files, stdin = []\<rparr> = (Inr 0, \<lparr>files = example_files, stdin = []\<rparr>)"
    using main_exit_status [THEN conjunct2, THEN conjunct1, rule_format, OF example_input_exists_out] .
  have nonempty: "collect_archives example_formats example_glob example_plan
     (files \<lparr>files = example_files, stdin = answers\<rparr>) \<noteq> []" for answers
    by (simp add: example_collect)
  obtain w1 where run1:
    "extract_archives example_formats example_unpack example_plan example_archives
       \<lparr>files = example_files, stdin = [''overwrite-all'']\<rparr> =
     (Inr \<lparr>extracted = 2, skipped = 0, failed = 1\<rparr>, w1)"
    using example_run_overwrite_all by (metis prod.collapse)
  from main_exit_status [THEN conjunct2, THEN conjunct2, rule_format,
      where w = "\<lparr>files = example_files, stdin = [''overwrite-all'']\<rparr>" and plan = example_plan
        and formats = example_formats and glob = example_glob and unpack_archive = example_unpack
        and fs' = example_files and result = "\<lparr>extracted = 2, skipped = 0, failed = 1\<rparr>" and w' = w1]
    example_input_exists nonempty example_mkdir_out run1
  show "fst (main example_formats example_glob example_unpack example_plan
     \<lparr>files = example_files, stdin = [''overwrite-all'']\<rparr>) = Inr 1"
    by (simp add: example_collect example_archives_def)
  obtain w2 where run2:
    "extract_archives example_formats example_unpack example_plan example_archives
       \<lparr>files = example_files, stdin = [''skip-all'']\<rparr> =
     (Inr \<lparr>extracted = 1, skipped = 2, failed = 0\<rparr>, w2)"
    using example_run_skip_all by (metis prod.collapse)
  from main_exit_status [THEN conjunct2, THEN conjunct2, rule_format,
      where w = "\<lparr>files = example_files, stdin = [''skip-all'']\<rparr>" and plan = example_plan
        and formats = example_formats and glob = example_glob and unpack_archive = example_unpack
        and fs' = example_files and result = "\<lparr>extracted = 1, skipped = 2, failed = 0\<rparr>" and w' = w2]
    example_input_exists nonempty example_mkdir_out run2
  show "fst (main example_formats example_glob example_unpack example_plan
     \<lparr>files = example_files, stdin = [''skip-all'']\<rparr>) = Inr 0"
    by (simp add: example_collect example_archives_def)
qed

subsection \<open>Dry runs\<close>





















subsection \<open>Escalation of the collision policy\<close>

lemma handle_existing_dest_fixed:
  "policy \<noteq> ''ask'' \<Longrightarrow>
   handle_existing_dest dest policy w =
     (case ensure_destination dest policy (files w) of
        (Inl e, fs') \<Rightarrow> (Inl e, w\<lparr>files := fs'\<rparr>)
      | (Inr resolved_dest, fs') \<Rightarrow> (Inr (resolved_dest, policy), w\<lparr>files := fs'\<rparr>))"
  by (simp add: handle_existing_dest_def)

lemma all_suffix_stripped:
  assumes "b \<in> {''skip'', ''overwrite'', ''rename''}"
  shows "endswith (b @ ''-all'') ''-all'' \<and> replace (b @ ''-all'') ''-all'' [] = b \<and> b \<noteq> ''ask''"
proof -
  have "endswith (''skip'' @ ''-all'') ''-all'' \<and> replace (''skip'' @ ''-all'') ''-all'' [] = ''skip''"
    by code_simp
  moreover have "endswith (''overwrite'' @ ''-all'') ''-all'' \<and>
      replace (''overwrite'' @ ''-all'') ''-all'' [] = ''overwrite''"
    by code_simp
  moreover have "endswith (''rename'' @ ''-all'') ''-all'' \<and>
      replace (''rename'' @ ''-all'') ''-all'' [] = ''rename''"
    by code_simp
  ultimately show ?thesis using assms by auto
qed

lemma handle_existing_dest_escalates:
  assumes b: "b \<in> {''skip'', ''overwrite'', ''rename''}"
    and collide: "exists (files w) dest"
    and answer: "prompt_choice [''skip'', ''overwrite'', ''rename'',
                   ''skip-all'', ''overwrite-all'', ''rename-all''] ''skip'' w =
                 (Inr (b @ ''-all''), w1)"
  shows "handle_existing_dest dest ''ask'' w = handle_existing_dest dest b w1"
proof -
  from all_suffix_stripped [OF b] have e: "endswith (b @ ''-all'') ''-all''"
    and r: "replace (b @ ''-all'') ''-all'' [] = b" and n: "b \<noteq> ''ask''"
    by simp_all
  have "handle_existing_dest dest ''ask'' w =
     (case ensure_destination dest b (files w1) of
        (Inl e, fs') \<Rightarrow> (Inl e, w1\<lparr>files := fs'\<rparr>)
      | (Inr resolved_dest, fs') \<Rightarrow> (Inr (resolved_dest, b), w1\<lparr>files := fs'\<rparr>))"
    using collide answer e r by (simp add: handle_existing_dest_def Let_def)
  with handle_existing_dest_fixed [OF n, of dest w1] show ?thesis
    by simp
qed

lemma extract_loop_append:
  "extract_loop formats u plan (xs @ ys) st w =
     (case extract_loop formats u plan xs st w of
        (Inl e, w') \<Rightarrow> (Inl e, w')
      | (Inr st', w') \<Rightarrow> extract_loop formats u plan ys st' w')"
proof (induction xs arbitrary: st w)
  case Nil
  show ?case by simp
next
  case (Cons a xs)
  obtain counts policy where st: "st = (counts, policy)"
    by (cases st)
  show ?case
    by (simp add: st Let_def Cons.IH split: prod.splits sum.splits option.splits)
qed

lemma extract_loop_fixed_policy:
  assumes n: "b \<noteq> ''ask''"
  shows "stdin (snd (extract_loop formats u plan items (c, b) w)) = stdin w \<and>
         (\<forall>r pol w'. extract_loop formats u plan items (c, b) w = (Inr (r, pol), w') \<longrightarrow> pol = b)"
proof (induction items arbitrary: c w)
  case Nil
  show ?case by simp
next
  case (Cons a items)
  let ?dest = "joinpath (output_dir plan) (archive_stem formats a)"
  obtain r fs1 where ens: "ensure_destination ?dest b (files w) = (r, fs1)"
    by (cases "ensure_destination ?dest b (files w)")
  have IH: "stdin (snd (extract_loop formats u plan items (c', b) w')) = stdin w' \<and>
         (\<forall>r pol w''. extract_loop formats u plan items (c', b) w' = (Inr (r, pol), w'') \<longrightarrow> pol = b)"
    for c' w'
    by (rule Cons.IH)
  show ?case
    using IH
    by (simp add: handle_existing_dest_fixed [OF n] ens Let_def
             split: prod.splits sum.splits option.splits)
qed

lemma extract_loop_skips:
  assumes "exists (files w) (joinpath (output_dir plan) (archive_stem formats a))"
  shows "extract_loop formats u plan (a # rest) (c, ''skip'') w =
         extract_loop formats u plan rest (c\<lparr>skipped := skipped c + 1\<rparr>, ''skip'') w"
  using assms by (simp add: handle_existing_dest_def ensure_destination_def)

text \<open>
  C1. Under \<open>ask\<close>, when the destination of an archive exists and the operator
  answers \<open>skip-all\<close>, \<open>overwrite-all\<close> or \<open>rename-all\<close>, the loop goes on from that
  archive as a loop whose policy is the base policy: every later archive is resolved
  under that policy, with no further question to the operator (after \<open>skip-all\<close> a
  later archive whose destination exists is skipped). What the loop did with the
  archives before is the loop over those archives alone, whatever follows.
\<close>

theorem escalation_replaces_policy:
  assumes b: "b \<in> {''skip'', ''overwrite'', ''rename''}"
    and collide: "exists (files w) (joinpath (output_dir plan) (archive_stem formats a))"
    and answer: "prompt_choice [''skip'', ''overwrite'', ''rename'',
                   ''skip-all'', ''overwrite-all'', ''rename-all''] ''skip'' w =
                 (Inr (b @ ''-all''), w1)"
  shows "extract_loop formats u plan (a # rest) (counts, ''ask'') w =
           extract_loop formats u plan (a # rest) (counts, b) w1 \<and>
         (\<forall>ys zs c w2.
            extract_loop formats u plan (ys @ zs) (c, b) w2 =
              (case extract_loop formats u plan ys (c, b) w2 of
                 (Inl e, w3) \<Rightarrow> (Inl e, w3)
               | (Inr (c', _), w3) \<Rightarrow> extract_loop formats u plan zs (c', b) w3)) \<and>
         (\<forall>items c w2. stdin (snd (extract_loop formats u plan items (c, b) w2)) = stdin w2) \<and>
         (\<forall>dest' w2. handle_existing_dest dest' b w2 =
            (case ensure_destination dest' b (files w2) of
               (Inl e, fs') \<Rightarrow> (Inl e, w2\<lparr>files := fs'\<rparr>)
             | (Inr resolved_dest, fs') \<Rightarrow> (Inr (resolved_dest, b), w2\<lparr>files := fs'\<rparr>))) \<and>
         (b = ''skip'' \<longrightarrow>
            (\<forall>a' rest' c w2.
               exists (files w2) (joinpath (output_dir plan) (archive_stem formats a')) \<longrightarrow>
               extract_loop formats u plan (a' # rest') (c, ''skip'') w2 =
               extract_loop formats u plan rest' (c\<lparr>skipped := skipped c + 1\<rparr>, ''skip'') w2)) \<and>
         (\<forall>xs ys st w0.
            extract_loop formats u plan (xs @ ys) st w0 =
              (case extract_loop formats u plan xs st w0 of
                 (Inl e, w') \<Rightarrow> (Inl e, w')
               | (Inr st', w') \<Rightarrow> extract_loop formats u plan ys st' w'))"
proof -
  from all_suffix_stripped [OF b] have n: "b \<noteq> ''ask''"
    by simp
  have now: "extract_loop formats u plan (a # rest) (counts, ''ask'') w =
           extract_loop formats u plan (a # rest) (counts, b) w1"
    by (simp add: handle_existing_dest_escalates [OF b collide answer])
  have later: "extract_loop formats u plan (ys @ zs) (c, b) w2 =
              (case extract_loop formats u plan ys (c, b) w2 of
                 (Inl e, w3) \<Rightarrow> (Inl e, w3)
               | (Inr (c', _), w3) \<Rightarrow> extract_loop formats u plan zs (c', b) w3)"
    for ys zs c w2
  proof (cases "extract_loop formats u plan ys (c, b) w2")
    case (Pair r w3)
    show ?thesis
    proof (cases r)
      case (Inl e)
      with Pair show ?thesis by (simp add: extract_loop_append)
    next
      case (Inr st')
      obtain c' pol where st': "st' = (c', pol)"
        by (cases st')
      with Pair Inr extract_loop_fixed_policy [OF n, of formats u plan ys c w2] have "pol = b"
        by simp
      with Pair Inr st' show ?thesis by (simp add: extract_loop_append)
    qed
  qed
  have quiet: "stdin (snd (extract_loop formats u plan items (c, b) w2)) = stdin w2" for items c w2
    using extract_loop_fixed_policy [OF n] by blast
  have fixed: "handle_existing_dest dest' b w2 =
            (case ensure_destination dest' b (files w2) of
               (Inl e, fs') \<Rightarrow> (Inl e, w2\<lparr>files := fs'\<rparr>)
             | (Inr resolved_dest, fs') \<Rightarrow> (Inr (resolved_dest, b), w2\<lparr>files := fs'\<rparr>))"
    for dest' w2
    by (rule handle_existing_dest_fixed [OF n])
  show ?thesis
    by (intro conjI allI impI)
       (rule now later quiet fixed extract_loop_skips extract_loop_append | assumption)+
qed

lemma example_collides_A:
  "exists (files \<lparr>files = example_files, stdin = answers\<rparr>)
     (joinpath (output_dir example_plan) (archive_stem example_formats [''in'', ''A.TAR.GZ'']))"
proof -
  have "exists example_files
     (joinpath (output_dir example_plan) (archive_stem example_formats [''in'', ''A.TAR.GZ'']))"
    by code_simp
  then show ?thesis by simp
qed

lemma example_collides_b:
  "exists (files \<lparr>files = example_files, stdin = answers\<rparr>)
     (joinpath (output_dir example_plan) (archive_stem example_formats [''in'', ''b.zip'']))"
proof -
  have "exists example_files
     (joinpath (output_dir example_plan) (archive_stem example_formats [''in'', ''b.zip'']))"
    by code_simp
  then show ?thesis by simp
qed

lemma example_answer_skip_all:
  "prompt_choice [''skip'', ''overwrite'', ''rename'',
      ''skip-all'', ''overwrite-all'', ''rename-all''] ''skip''
      \<lparr>files = example_files, stdin = [''skip-all'']\<rparr> =
   (Inr (''skip'' @ ''-all''), \<lparr>files = example_files, stdin = []\<rparr>)"
  by code_simp

lemma example_escalated_run:
  "fst (extract_loop example_formats example_unpack example_plan example_archives
     (\<lparr>extracted = 0, skipped = 0, failed = 0\<rparr>, ''ask'')
     \<lparr>files = example_files, stdin = [''skip-all'']\<rparr>) =
   Inr (\<lparr>extracted = 1, skipped = 2, failed = 0\<rparr>, ''skip'')"
  by code_simp

theorem escalation_replaces_policy_witness:
  "extract_loop example_formats example_unpack example_plan
     ([''in'', ''A.TAR.GZ''] # [[''in'', ''b.zip''], [''in'', ''c.tar'']])
     (\<lparr>extracted = 0, skipped = 0, failed = 0\<rparr>, ''ask'')
     \<lparr>files = example_files, stdin = [''skip-all'']\<rparr> =
   extract_loop example_formats example_unpack example_plan
     ([''in'', ''A.TAR.GZ''] # [[''in'', ''b.zip''], [''in'', ''c.tar'']])
     (\<lparr>extracted = 0, skipped = 0, failed = 0\<rparr>, ''skip'')
     \<lparr>files = example_files, stdin = []\<rparr> \<and>
   extract_loop example_formats example_unpack example_plan
     ([''in'', ''b.zip''] # [[''in'', ''c.tar'']])
     (\<lparr>extracted = 0, skipped = 1, failed = 0\<rparr>, ''skip'')
     \<lparr>files = example_files, stdin = []\<rparr> =
   extract_loop example_formats example_unpack example_plan [[''in'', ''c.tar'']]
     (\<lparr>extracted = 0, skipped = 1, failed = 0\<rparr>
        \<lparr>skipped := skipped \<lparr>extracted = 0, skipped = 1, failed = 0\<rparr> + 1\<rparr>, ''skip'')
     \<lparr>files = example_files, stdin = []\<rparr> \<and>
   fst (extract_loop example_formats example_unpack example_plan example_archives
     (\<lparr>extracted = 0, skipped = 0, failed = 0\<rparr>, ''ask'')
     \<lparr>files = example_files, stdin = [''skip-all'']\<rparr>) =
   Inr (\<lparr>extracted = 1, skipped = 2, failed = 0\<rparr>, ''skip'')"
proof -
  have b: "''skip'' \<in> {''skip'', ''overwrite'', ''rename''}"
    by simp
  note inst = escalation_replaces_policy [OF b example_collides_A example_answer_skip_all,
      where u = example_unpack]
  have first: "extract_loop example_formats example_unpack example_plan
     ([''in'', ''A.TAR.GZ''] # [[''in'', ''b.zip''], [''in'', ''c.tar'']])
     (\<lparr>extracted = 0, skipped = 0, failed = 0\<rparr>, ''ask'')
     \<lparr>files = example_files, stdin = [''skip-all'']\<rparr> =
   extract_loop example_formats example_unpack example_plan
     ([''in'', ''A.TAR.GZ''] # [[''in'', ''b.zip''], [''in'', ''c.tar'']])
     (\<lparr>extracted = 0, skipped = 0, failed = 0\<rparr>, ''skip'')
     \<lparr>files = example_files, stdin = []\<rparr>"
    using inst by (rule conjunct1)
  have "\<forall>a' rest' c w2.
          exists (files w2) (joinpath (output_dir example_plan) (archive_stem example_formats a')) \<longrightarrow>
          extract_loop example_formats example_unpack example_plan (a' # rest') (c, ''skip'') w2 =
          extract_loop example_formats example_unpack example_plan rest'
            (c\<lparr>skipped := skipped c + 1\<rparr>, ''skip'') w2"
    using inst [where rest = "[]" and counts = "\<lparr>extracted = 0, skipped = 0, failed = 0\<rparr>"]
    by blast
  from this [THEN spec, THEN spec, THEN spec, THEN spec, THEN mp,
      OF example_collides_b [where answers = "[]"]]
  have second: "extract_loop example_formats example_unpack example_plan
     ([''in'', ''b.zip''] # [[''in'', ''c.tar'']])
     (\<lparr>extracted = 0, skipped = 1, failed = 0\<rparr>, ''skip'')
     \<lparr>files = example_files, stdin = []\<rparr> =
   extract_loop example_formats example_unpack example_plan [[''in'', ''c.tar'']]
     (\<lparr>extracted = 0, skipped = 1, failed = 0\<rparr>
        \<lparr>skipped := skipped \<lparr>extracted = 0, skipped = 1, failed = 0\<rparr> + 1\<rparr>, ''skip'')
     \<lparr>files = example_files, stdin = []\<rparr>" .
  from first second example_escalated_run show ?thesis
    by (intro conjI)
qed

end
